theory Spec2Isabelle
  imports Main "HOL-Library.Word"
begin

unbundle bit_operations_syntax

section \<open>The MIDI ring buffer of Bean.cpp\<close>

text \<open>
  The file-scope state of the MIDI framer (Bean.cpp, lines 38 to 52):
  \<^verbatim>\<open>
  #define MIDI_BUFFER_SIZE 20
  #define BLE_PACKET_SIZE 20
  typedef struct { uint32_t timestamp; uint8_t status; uint8_t byte1; uint8_t byte2; } midiMessage;
  static midiMessage midiMessages[MIDI_BUFFER_SIZE];
  uint8_t midiPacket[BLE_PACKET_SIZE];
  uint8_t midiWriteOffset = 0;
  uint8_t midiReadOffset = 0;
  \<close>
  The two arrays are lists of length 20, indexed by the unsigned value of an offset. An index
  outside an array is undefined behaviour in C++; the predicate \<open>midi_inv\<close> below states the
  ranges under which every access of the model is an access of the program.
\<close>

definition MIDI_BUFFER_SIZE :: nat where
  "MIDI_BUFFER_SIZE = 20"

definition BLE_PACKET_SIZE :: nat where
  "BLE_PACKET_SIZE = 20"

record midiMessage =
  timestamp :: "32 word"
  status :: "8 word"
  byte1 :: "8 word"
  byte2 :: "8 word"

record midi_state =
  midiMessages :: "midiMessage list"
  midiPacket :: "8 word list"
  midiWriteOffset :: "8 word"
  midiReadOffset :: "8 word"

text \<open>The state at startup: static storage is zero-initialised, both cursors are 0.\<close>

definition midi_init :: midi_state where
  "midi_init =
     \<lparr>midiMessages = replicate MIDI_BUFFER_SIZE \<lparr>timestamp = 0, status = 0, byte1 = 0, byte2 = 0\<rparr>,
      midiPacket = replicate BLE_PACKET_SIZE 0,
      midiWriteOffset = 0,
      midiReadOffset = 0\<rparr>"

definition midi_inv :: "midi_state \<Rightarrow> bool" where
  "midi_inv st \<longleftrightarrow>
     length (midiMessages st) = MIDI_BUFFER_SIZE \<and>
     length (midiPacket st) = BLE_PACKET_SIZE \<and>
     unat (midiWriteOffset st) < MIDI_BUFFER_SIZE \<and>
     unat (midiReadOffset st) < MIDI_BUFFER_SIZE"

text \<open>
  \<^verbatim>\<open>BeanClass::midiSend\<close> (lines 697 to 707). The value of \<^verbatim>\<open>millis()\<close>, read after the
  test for a full buffer, is the parameter \<open>millisec\<close>. The comparison of line 698 is made in
  \<^verbatim>\<open>int\<close> (no wrap-around); the increment of line 704 is made in \<^verbatim>\<open>uint8_t\<close>.
  The result is the returned \<^verbatim>\<open>int\<close> and the new state.
\<close>

definition midiSend :: "32 word \<Rightarrow> 8 word \<Rightarrow> 8 word \<Rightarrow> 8 word \<Rightarrow> midi_state \<Rightarrow> int \<times> midi_state" where
  "midiSend millisec status' byte1' byte2' st =
     (if (unat (midiWriteOffset st) + 1) mod MIDI_BUFFER_SIZE = unat (midiReadOffset st)
      then (1, st)
      else
        (0, st\<lparr>midiMessages :=
                 (midiMessages st)[unat (midiWriteOffset st) :=
                    \<lparr>timestamp = millisec, status = status', byte1 = byte1', byte2 = byte2'\<rparr>],
               midiWriteOffset := (midiWriteOffset st + 1) mod of_nat MIDI_BUFFER_SIZE\<rparr>))"

text \<open>A sequence of \<open>midiSend\<close> calls, each with the clock value it observed; the results in call order.\<close>

type_synonym midi_call = "32 word \<times> 8 word \<times> 8 word \<times> 8 word"

fun midiSend_all :: "midi_call list \<Rightarrow> midi_state \<Rightarrow> int list \<times> midi_state" where
  "midiSend_all [] st = ([], st)"
| "midiSend_all ((millisec, status', byte1', byte2') # cs) st =
     (case midiSend millisec status' byte1' byte2' st of
        (r, st') \<Rightarrow> (case midiSend_all cs st' of (rs, st'') \<Rightarrow> (r # rs, st'')))"

definition event_of :: "midi_call \<Rightarrow> midiMessage" where
  "event_of c = (case c of (millisec, status', byte1', byte2') \<Rightarrow>
     \<lparr>timestamp = millisec, status = status', byte1 = byte1', byte2 = byte2'\<rparr>)"

text \<open>
  The events held by the buffer, oldest first: the slots from the read cursor up to, not
  including, the write cursor, modulo the size. This is the order in which the loop of
  \<^verbatim>\<open>midiPacketSend\<close> visits them.
\<close>

definition queued :: "midi_state \<Rightarrow> midiMessage list" where
  "queued st =
     map (\<lambda>i. midiMessages st ! ((unat (midiReadOffset st) + i) mod MIDI_BUFFER_SIZE))
       [0 ..< (unat (midiWriteOffset st) + MIDI_BUFFER_SIZE - unat (midiReadOffset st))
                 mod MIDI_BUFFER_SIZE]"

text \<open>Twenty-one distinct note-on calls, used as a concrete input.\<close>

definition note_calls :: "nat \<Rightarrow> midi_call list" where
  "note_calls n = map (\<lambda>i. (of_nat (1000 + i), 0x90, of_nat (40 + i), 100)) [0 ..< n]"

section \<open>Encoding a packet\<close>

text \<open>
  One iteration of the loop of \<^verbatim>\<open>BeanClass::midiPacketSend\<close> (lines 723 to 736), up to the
  test of line 737. The locals \<^verbatim>\<open>int lastStatus = -1; int lastTime = -1;\<close> are parameters:
  the source compares them with the event (\<^verbatim>\<open>status\<close> promoted to \<^verbatim>\<open>int\<close>,
  \<^verbatim>\<open>lastTime\<close> converted to \<^verbatim>\<open>uint32_t\<close>) and assigns them nowhere.
\<close>

definition midiPacketSend_body :: "int \<Rightarrow> int \<Rightarrow> 8 word \<Rightarrow> midi_state \<Rightarrow> 8 word \<times> midi_state" where
  "midiPacketSend_body lastStatus lastTime byteOffset st =
     (let m = midiMessages st ! unat (midiReadOffset st);
          (byteOffset', pkt) =
            (if lastStatus = uint (status m) \<and> word_of_int lastTime = timestamp m
             then (byteOffset + 2,
                   (midiPacket st)
                     [unat byteOffset := byte1 m,
                      unat (byteOffset + 1) := byte2 m])
             else (byteOffset + 4,
                   (midiPacket st)
                     [unat byteOffset := ucast (timestamp m) OR push_bit 7 1,
                      unat (byteOffset + 1) := status m,
                      unat (byteOffset + 2) := byte1 m,
                      unat (byteOffset + 3) := byte2 m]))
      in (byteOffset', st\<lparr>midiPacket := pkt, midiReadOffset := (midiReadOffset st + 1) mod of_nat MIDI_BUFFER_SIZE\<rparr>))"

text \<open>
  The loop of lines 722 to 740: it ends when the cursors meet or, after an event, when
  \<^verbatim>\<open>byteOffset + 4 > BLE_PACKET_SIZE\<close> (computed in \<^verbatim>\<open>int\<close>).
\<close>

function midiPacketSend_loop :: "int \<Rightarrow> int \<Rightarrow> 8 word \<Rightarrow> midi_state \<Rightarrow> 8 word \<times> midi_state" where
  "midiPacketSend_loop lastStatus lastTime byteOffset st =
     (if midiReadOffset st = midiWriteOffset st then (byteOffset, st)
      else
        (case midiPacketSend_body lastStatus lastTime byteOffset st of
           (byteOffset', st') \<Rightarrow>
             if unat byteOffset' + 4 > BLE_PACKET_SIZE then (byteOffset', st')
             else midiPacketSend_loop lastStatus lastTime byteOffset' st'))"
  by pat_completeness auto
termination
  apply (relation "measure (\<lambda>(lastStatus, lastTime, byteOffset, st).
                   if unat byteOffset \<le> 16 then 17 - unat byteOffset else 18)")
   apply simp
  apply (auto simp: midiPacketSend_body_def Let_def BLE_PACKET_SIZE_def unat_word_ariths split: if_splits)
  done

text \<open>
  \<^verbatim>\<open>BeanClass::midiPacketSend\<close> (lines 709 to 743). The result is the returned count, the
  message handed to \<^verbatim>\<open>Serial.write_message\<close> (the first \<^verbatim>\<open>byteOffset\<close> bytes of
  \<^verbatim>\<open>midiPacket\<close>; \<open>None\<close> when the function returns before line 741) and the new state.
\<close>

definition midiPacketSend :: "midi_state \<Rightarrow> int \<times> 8 word list option \<times> midi_state" where
  "midiPacketSend st =
     (if midiReadOffset st = midiWriteOffset st then (0, None, st)
      else
        (let millisec = timestamp (midiMessages st ! unat (midiReadOffset st));
             head_ts = (ucast (drop_bit 7 millisec) :: 8 word);
             head_ts = head_ts OR push_bit 7 1;
             head_ts = head_ts AND NOT (push_bit 6 1);
             st = st\<lparr>midiPacket := (midiPacket st)[0 := head_ts]\<rparr>
         in case midiPacketSend_loop (- 1) (- 1) 1 st of
              (byteOffset, st) \<Rightarrow>
                (uint byteOffset, Some (take (unat byteOffset) (midiPacket st)), st)))"

section \<open>Decoding\<close>

text \<open>
  Modelled from the spec: the declarations of the members \<^verbatim>\<open>midiPacketBegin\<close> and
  \<^verbatim>\<open>lastStatus\<close> of \<^verbatim>\<open>BeanClass\<close> are in Bean.h, which is missing. The spec gives the
  decoder session state as \<open>{packetBegin: bool, lastStatus: int}\<close>. In Bean.cpp
  \<^verbatim>\<open>keepAwake\<close> (lines 96 to 99) resets them to \<^verbatim>\<open>lastStatus = 0; midiPacketBegin = true\<close>;
  \<open>lastStatus\<close> receives a \<^verbatim>\<open>uint8_t\<close> (line 764) and is assigned to one (line 781), the
  conversion being modulo 256.
\<close>

record midi_session =
  midiPacketBegin :: bool
  lastStatus :: int

definition keepAwake_session :: midi_session where
  "keepAwake_session = \<lparr>midiPacketBegin = True, lastStatus = 0\<rparr>"

text \<open>
  \<^verbatim>\<open>BeanClass::midiRead\<close> (lines 745 to 790). The transport object \<^verbatim>\<open>Serial\<close> is not in the
  repository: its buffered inbound MIDI bytes are the parameter \<open>rx\<close>, a list, oldest
  first, of which \<^verbatim>\<open>Serial.midiAvailable()\<close> is the length, \<^verbatim>\<open>Serial.peekMidi()\<close> the head,
  left in place, and of which \<^verbatim>\<open>Serial.readMidi(buffer, n)\<close> moves the first \<open>n\<close> bytes
  into \<^verbatim>\<open>buffer\<close>. The three output pointers are a triple, passed in with the caller's
  current values and returned with the values after the call. The result is the returned
  \<^verbatim>\<open>int\<close>, the session, the outputs and the inbound bytes left.
\<close>

type_synonym midi_out = "8 word \<times> 8 word \<times> 8 word"

definition midiRead ::
  "midi_session \<Rightarrow> midi_out \<Rightarrow> 8 word list \<Rightarrow> int \<times> midi_session \<times> midi_out \<times> 8 word list" where
  "midiRead s out rx =
     (let (s, rx) =
            (if midiPacketBegin s
             then (if length rx > 4 then (s\<lparr>midiPacketBegin := False\<rparr>, drop 1 rx) else (s, rx))
             else (s, rx))
      in
        if \<not> midiPacketBegin s then
          (if length rx > 0 then
             (let peek = hd rx in
              if peek AND push_bit 7 1 \<noteq> 0 then
                (if length rx \<ge> 4 then
                   (let buffer = take 4 rx;
                        rx = drop 4 rx;
                        timestamp' = buffer ! 0;
                        status' = buffer ! 1;
                        s = s\<lparr>lastStatus := uint status'\<rparr>;
                        byte1' = buffer ! 2;
                        byte2' = buffer ! 3
                    in if timestamp' = 0xFF \<and> status' = 0xFF \<and> byte1' = 0xFF \<and> byte2' = 0xFF
                       then (0, s\<lparr>midiPacketBegin := True\<rparr>, (status', byte1', byte2'), rx)
                       else (uint peek, s, (status', byte1', byte2'), rx))
                 else (0, s, out, rx))
              else
                (if length rx \<ge> 2 then
                   (let buffer = take 2 rx;
                        rx = drop 2 rx
                    in (uint peek, s, (word_of_int (lastStatus s), buffer ! 0, buffer ! 1), rx))
                 else (0, s, out, rx)))
           else (0, s, out, rx))
        else (0, s, out, rx))"

text \<open>
  Repeated polling: \<open>n\<close> calls of \<open>midiRead\<close> in a row with no new inbound bytes in between;
  the returned value and the outputs of each call, in call order.
\<close>

fun midiRead_n ::
  "nat \<Rightarrow> midi_session \<Rightarrow> midi_out \<Rightarrow> 8 word list \<Rightarrow> (int \<times> midi_out) list" where
  "midiRead_n 0 s out rx = []"
| "midiRead_n (Suc n) s out rx =
     (case midiRead s out rx of (r, s', out', rx') \<Rightarrow> (r, out') # midiRead_n n s' out' rx')"

text \<open>
  The four bytes that the \<open>else\<close> branch of the loop of \<^verbatim>\<open>midiPacketSend\<close> writes for an
  event (lines 728 to 733): the low byte of the timestamp with bit 7 set, then status and the
  two data bytes.
\<close>

definition timed_record :: "midiMessage \<Rightarrow> 8 word list" where
  "timed_record m = [ucast (timestamp m) OR push_bit 7 1, status m, byte1 m, byte2 m]"

text \<open>
  An event whose record is the four bytes that \<^verbatim>\<open>midiRead\<close> takes for the end of a packet
  (lines 767 to 770): status and both data bytes 0xFF, timestamp 127 modulo 128.
\<close>

definition is_sentinel :: "midiMessage \<Rightarrow> bool" where
  "is_sentinel m \<longleftrightarrow> timed_record m = [0xFF, 0xFF, 0xFF, 0xFF]"

text \<open>Concrete buffers, used as inputs below.\<close>

definition two_notes :: midi_state where
  "two_notes =
     snd (midiSend_all [(5, 0x90, 60, 100), (5, 0x90, 64, 100)] midi_init)"

definition reset_then_note :: midi_state where
  "reset_then_note =
     snd (midiSend_all [(127, 0xFF, 0xFF, 0xFF), (130, 0x90, 64, 100)] midi_init)"

text \<open>
  \<open>n\<close> calls of \<open>midiPacketSend\<close> in a row, and a buffer that the program reaches with both
  cursors at 18: eighteen events enqueued, then drained by five packets.
\<close>

fun drain :: "nat \<Rightarrow> midi_state \<Rightarrow> midi_state" where
  "drain 0 st = st"
| "drain (Suc n) st = drain n (snd (snd (midiPacketSend st)))"

definition drained_at_18 :: midi_state where
  "drained_at_18 = drain 5 (snd (midiSend_all (note_calls 18) midi_init))"

section \<open>The power sequencer\<close>

text \<open>
  \<^verbatim>\<open>BeanClass::sleep\<close> and \<^verbatim>\<open>BeanClass::attemptSleep\<close> act on the registers of the
  microcontroller and call the Arduino runtime, avr-libc and the transport. The model keeps
  \<^item> the registers the two functions write: \<^verbatim>\<open>DDRD\<close>, \<^verbatim>\<open>ADCSRA\<close> and \<^verbatim>\<open>ACSR\<close>, as
    plain 8-bit cells (what the hardware itself does to their other bits is outside);
  \<^item> the input register \<^verbatim>\<open>PIND\<close> as a sequence of samples \<open>pind\<close>: the \<open>k\<close>-th read of
    the register returns \<open>pind k\<close>, and \<open>pind_reads\<close> counts the reads made so far;
  \<^item> every call that leaves the file (\<^verbatim>\<open>delay\<close>, \<^verbatim>\<open>Serial.sleep\<close>, \<^verbatim>\<open>Serial.flush\<close>,
    \<^verbatim>\<open>attachInterrupt\<close>, \<^verbatim>\<open>cli\<close>, \<^verbatim>\<open>sleep_cpu\<close>, ...) as an event appended to \<open>trace\<close>,
    oldest first. \<^verbatim>\<open>sleep_cpu\<close> is the instruction that halts the processor until an
    interrupt; the model records it and goes on, as the program does once woken.
\<close>

definition MAX_SLEEP_POLL :: nat where
  "MAX_SLEEP_POLL = 30"

definition MAX_DELAY :: nat where
  "MAX_DELAY = 30000"

definition MIN_SLEEP_TIME :: nat where
  "MIN_SLEEP_TIME = 10"

datatype uart_sleep_mode = UART_SLEEP_NORMAL | UART_SLEEP_NEVER

datatype event =
    BTConfigUartSleep uart_sleep_mode
  | Serial_sleep "32 word"
  | Serial_flush
  | Delay "32 word"
  | AttachInterrupt_LOW int
  | Set_sleep_mode_PWR_DOWN
  | Cli
  | Sleep_enable
  | Sleep_bod_disable
  | Sei
  | Sleep_cpu
  | Sleep_disable
  | DetachInterrupt int

record avr =
  DDRD :: "8 word"
  ADCSRA :: "8 word"
  ACSR :: "8 word"
  pind_reads :: nat
  trace :: "event list"

text \<open>
  The bit numbers \<^verbatim>\<open>ADEN\<close> (of \<^verbatim>\<open>ADCSRA\<close>) and \<^verbatim>\<open>ACD\<close> (of \<^verbatim>\<open>ACSR\<close>) come from
  \<^verbatim>\<open><avr/io.h>\<close>, which is not part of the repository: they are parameters of the model.
  On the ATmega328P of the board both are bit 7. \<^verbatim>\<open>ADEN\<close> is the enable bit of the
  analog-to-digital converter; \<^verbatim>\<open>ACD\<close> is the analog comparator's disable bit: the
  comparator is powered while the bit is clear.
\<close>

record avr_io =
  ADEN :: nat
  ACD :: nat

definition atmega328p :: avr_io where
  "atmega328p = \<lparr>ADEN = 7, ACD = 7\<rparr>"

text \<open>The avr-libc macros \<^verbatim>\<open>_BV(bit)\<close>, that is \<^verbatim>\<open>1 << bit\<close>, and \<^verbatim>\<open>bit_is_set(sfr, bit)\<close>.\<close>

definition BV :: "nat \<Rightarrow> 8 word" where
  "BV b = push_bit b 1"

definition bit_is_set :: "8 word \<Rightarrow> nat \<Rightarrow> bool" where
  "bit_is_set sfr b \<longleftrightarrow> sfr AND BV b \<noteq> 0"

definition adc_enabled :: "avr_io \<Rightarrow> avr \<Rightarrow> bool" where
  "adc_enabled io st \<longleftrightarrow> bit_is_set (ADCSRA st) (ADEN io)"

definition comparator_enabled :: "avr_io \<Rightarrow> avr \<Rightarrow> bool" where
  "comparator_enabled io st \<longleftrightarrow> \<not> bit_is_set (ACSR st) (ACD io)"

definition analog_regs :: "avr \<Rightarrow> 8 word \<times> 8 word" where
  "analog_regs st = (ADCSRA st, ACSR st)"

definition emit :: "event \<Rightarrow> avr \<Rightarrow> avr" where
  "emit e st = st\<lparr>trace := trace st @ [e]\<rparr>"

definition read_PIND :: "(nat \<Rightarrow> 8 word) \<Rightarrow> avr \<Rightarrow> 8 word \<times> avr" where
  "read_PIND pind st = (pind (pind_reads st), st\<lparr>pind_reads := Suc (pind_reads st)\<rparr>)"

text \<open>
  The polling loop of \<^verbatim>\<open>attemptSleep\<close> (lines 120 to 125):
  \<^verbatim>\<open>while (sleepLineSet == false && pollCount++ < MAX_SLEEP_POLL)\<close>, with \<^verbatim>\<open>pollCount\<close> a
  \<^verbatim>\<open>uint8_t\<close> compared as an \<^verbatim>\<open>int\<close>. The increment made by the last, failing test is
  dropped: \<^verbatim>\<open>pollCount\<close> is not read after the loop.
\<close>

function attemptSleep_loop :: "(nat \<Rightarrow> 8 word) \<Rightarrow> bool \<Rightarrow> 8 word \<Rightarrow> avr \<Rightarrow> bool \<times> avr" where
  "attemptSleep_loop pind sleepLineSet pollCount st =
     (if sleepLineSet = False \<and> unat pollCount < MAX_SLEEP_POLL then
        (case read_PIND pind (emit (Delay 1) st) of
           (v, st') \<Rightarrow>
             attemptSleep_loop pind (if v AND BV 3 > 0 then True else sleepLineSet)
               (pollCount + 1) st')
      else (sleepLineSet, st))"
  by pat_completeness auto
termination
  apply (relation "measure (\<lambda>(pind, sleepLineSet, pollCount, st). MAX_SLEEP_POLL - unat pollCount)")
   apply simp
  apply (auto simp: MAX_SLEEP_POLL_def unat_word_ariths)
  done

declare attemptSleep_loop.simps [simp del]

text \<open>\<^verbatim>\<open>BeanClass::attemptSleep\<close> (lines 108 to 128).\<close>

definition attemptSleep :: "(nat \<Rightarrow> 8 word) \<Rightarrow> 32 word \<Rightarrow> avr \<Rightarrow> bool \<times> avr" where
  "attemptSleep pind duration_ms st =
     (let st = st\<lparr>DDRD := DDRD st AND NOT (BV 3)\<rparr>;
          st = emit (Serial_sleep duration_ms) st;
          st = emit Serial_flush st
      in attemptSleep_loop pind False 0 st)"

text \<open>
  The retry loop of \<^verbatim>\<open>sleep\<close> (lines 155 to 159), on the \<^verbatim>\<open>uint32_t\<close> duration.
\<close>

function sleep_retry :: "(nat \<Rightarrow> 8 word) \<Rightarrow> 32 word \<Rightarrow> bool \<Rightarrow> avr \<Rightarrow> 32 word \<times> bool \<times> avr" where
  "sleep_retry pind duration_ms sleeping st =
     (if unat duration_ms > 0 \<and> False = sleeping then
        (case attemptSleep pind
                (if unat duration_ms \<ge> MAX_SLEEP_POLL then duration_ms - of_nat MAX_SLEEP_POLL else 0) st of
           (sleeping', st') \<Rightarrow>
             sleep_retry pind
               (if unat duration_ms \<ge> MAX_SLEEP_POLL then duration_ms - of_nat MAX_SLEEP_POLL else 0) sleeping' st')
      else (duration_ms, sleeping, st))"
  by pat_completeness auto
termination
  apply (relation "measure (\<lambda>(pind, duration_ms, sleeping, st). unat duration_ms)")
   apply simp
  apply (auto simp: MAX_SLEEP_POLL_def unat_sub word_le_nat_alt)
  done

declare sleep_retry.simps [simp del]

text \<open>
  The three parts of the deep-sleep entry of \<^verbatim>\<open>sleep\<close>: lines 174 to 184 (the two
  peripherals), lines 264 to 276 (the test of the signal line and the sleep instruction, with
  \<^verbatim>\<open>interruptNum = 1\<close>) and lines 278 to 286 (the two peripherals again).
\<close>

definition disable_peripherals :: "avr_io \<Rightarrow> avr \<Rightarrow> bool \<times> bool \<times> avr" where
  "disable_peripherals io st =
     (let adc_was_set = bit_is_set (ADCSRA st) (ADEN io);
          st = (if adc_was_set then st\<lparr>ADCSRA := ADCSRA st AND NOT (BV (ADEN io))\<rparr> else st);
          ac_was_set = bit_is_set (ACSR st) (ACD io);
          st = (if ac_was_set then st\<lparr>ACSR := ACSR st AND NOT (BV (ACD io))\<rparr> else st)
      in (adc_was_set, ac_was_set, st))"

definition test_and_sleep :: "(nat \<Rightarrow> 8 word) \<Rightarrow> avr \<Rightarrow> avr" where
  "test_and_sleep pind st =
     (let st = emit (AttachInterrupt_LOW 1) st;
          st = emit Set_sleep_mode_PWR_DOWN st;
          st = emit Cli st;
          (v, st) = read_PIND pind st;
          st = (if bit_is_set v 3
                then (let st = emit Sleep_enable st;
                          st = emit Sleep_bod_disable st;
                          st = emit Sei st;
                          st = emit Sleep_cpu st
                      in emit Sleep_disable st)
                else st);
          st = emit Sei st
      in emit (DetachInterrupt 1) st)"

definition restore_peripherals :: "avr_io \<Rightarrow> bool \<Rightarrow> bool \<Rightarrow> avr \<Rightarrow> avr" where
  "restore_peripherals io adc_was_set ac_was_set st =
     (let st = (if adc_was_set then st\<lparr>ADCSRA := ADCSRA st OR BV (ADEN io)\<rparr> else st)
      in if ac_was_set then st\<lparr>ACSR := ACSR st OR BV (ACD io)\<rparr> else st)"

text \<open>\<^verbatim>\<open>BeanClass::sleep\<close> (lines 134 to 287).\<close>

definition sleep :: "avr_io \<Rightarrow> (nat \<Rightarrow> 8 word) \<Rightarrow> 32 word \<Rightarrow> avr \<Rightarrow> avr" where
  "sleep io pind duration_ms st =
     (let st = st\<lparr>DDRD := DDRD st AND NOT (BV 3)\<rparr>;
          st = emit (BTConfigUartSleep UART_SLEEP_NORMAL) st
      in if unat duration_ms < MIN_SLEEP_TIME then emit (Delay duration_ms) st
         else
           (case attemptSleep pind duration_ms st of
              (sleeping, st) \<Rightarrow>
                (case (if \<not> sleeping \<and> unat duration_ms > MAX_DELAY
                       then sleep_retry pind duration_ms sleeping st
                       else if \<not> sleeping \<and> unat duration_ms > MAX_SLEEP_POLL
                       then (duration_ms, False, emit (Delay (duration_ms - of_nat MAX_SLEEP_POLL)) st)
                       else (duration_ms, sleeping, st)) of
                   (duration_ms, sleeping, st) \<Rightarrow>
                     if sleeping = False then st
                     else
                       (case disable_peripherals io st of
                          (adc_was_set, ac_was_set, st) \<Rightarrow>
                            restore_peripherals io adc_was_set ac_was_set
                              (test_and_sleep pind st)))))"

text \<open>
  A board as the Arduino runtime leaves it: the converter enabled with prescaler 128
  (\<^verbatim>\<open>ADCSRA = 0x87\<close>), the comparator in its reset state (\<^verbatim>\<open>ACSR = 0\<close>, powered).
\<close>

definition board :: avr where
  "board = \<lparr>DDRD = 0xFF, ADCSRA = 0x87, ACSR = 0x00, pind_reads = 0, trace = []\<rparr>"

section \<open>Properties of the ring buffer\<close>

text \<open>
  C4. A call of \<open>midiSend\<close> on a full buffer (advancing the write cursor would make it equal
  to the read cursor) returns 1 to the caller and leaves the whole state as it was: both
  cursors, every stored event.
\<close>

theorem midiSend_full_unchanged:
  "(unat (midiWriteOffset st) + 1) mod MIDI_BUFFER_SIZE = unat (midiReadOffset st) \<Longrightarrow>
   midiSend millisec s x y st = (1, st)"
  by (simp add: midiSend_def)

theorem midiSend_full_unchanged_witness:
  "(unat (midiWriteOffset (midi_init\<lparr>midiWriteOffset := 19\<rparr>)) + 1) mod MIDI_BUFFER_SIZE
     = unat (midiReadOffset (midi_init\<lparr>midiWriteOffset := 19\<rparr>)) \<and>
   midiSend 1000 144 60 100 (midi_init\<lparr>midiWriteOffset := 19\<rparr>)
     = (1, midi_init\<lparr>midiWriteOffset := 19\<rparr>)"
  using midiSend_full_unchanged [of "midi_init\<lparr>midiWriteOffset := 19\<rparr>" 1000 144 60 100]
  by (simp add: midi_init_def MIDI_BUFFER_SIZE_def)

lemma unat_next_offset:
  "unat w < 20 \<Longrightarrow> unat ((w + 1) mod 20 :: 8 word) = (unat w + 1) mod 20"
  by (simp add: unat_mod unat_word_ariths)

lemma mod20_hi: "(20::nat) \<le> a \<Longrightarrow> a < 40 \<Longrightarrow> a mod 20 = a - 20"
  by (simp add: le_mod_geq)

text \<open>The number of queued events, by cases on the order of the two cursors.\<close>

lemma queued_count_cases:
  assumes "r < 20" "w < (20::nat)"
  shows "(w + 20 - r) mod 20 = (if r \<le> w then w - r else w + 20 - r)"
proof (cases "r \<le> w")
  case True
  have "(w + 20 - r) mod 20 = w + 20 - r - 20"
    using assms True by (intro mod20_hi) linarith+
  with True show ?thesis by simp
next
  case False
  have "(w + 20 - r) mod 20 = w + 20 - r"
    using assms False by (intro mod_less) linarith
  with False show ?thesis by simp
qed

lemma slot_of_index:
  assumes "r < 20" "i < (20::nat)"
  shows "(r + i) mod 20 = (if r + i < 20 then r + i else r + i - 20)"
proof (cases "r + i < 20")
  case True
  then show ?thesis by simp
next
  case False
  have "(r + i) mod 20 = r + i - 20"
    using assms False by (intro mod20_hi) linarith+
  with False show ?thesis by simp
qed

lemma next_cursor:
  assumes "w < (20::nat)"
  shows "(w + 1) mod 20 = (if w = 19 then 0 else w + 1)"
  using assms by auto

lemma queued_length:
  "length (queued st)
     = (unat (midiWriteOffset st) + 20 - unat (midiReadOffset st)) mod 20"
  by (simp add: queued_def MIDI_BUFFER_SIZE_def)

lemma full_iff:
  assumes "r < 20" "w < (20::nat)"
  shows "(w + 1) mod 20 = r \<longleftrightarrow> (w + 20 - r) mod 20 = 19"
  unfolding queued_count_cases [OF assms] next_cursor [OF assms(2)]
  using assms by auto

lemma count_after_send:
  assumes "r < 20" "w < (20::nat)" "(w + 1) mod 20 \<noteq> r"
  shows "((w + 1) mod 20 + 20 - r) mod 20 = Suc ((w + 20 - r) mod 20)"
proof -
  have w': "(w + 1) mod 20 < 20" by simp
  show ?thesis
    unfolding queued_count_cases [OF assms(1) w'] queued_count_cases [OF assms(1,2)]
    using assms unfolding next_cursor [OF assms(2)]
    by (auto split: if_splits)
qed

lemma last_slot:
  assumes "r < 20" "w < (20::nat)"
  shows "(r + (w + 20 - r) mod 20) mod 20 = w"
proof -
  have n: "(w + 20 - r) mod 20 < 20" by simp
  show ?thesis
    unfolding slot_of_index [OF assms(1) n]
    unfolding queued_count_cases [OF assms]
    using assms by (auto split: if_splits)
qed

lemma earlier_slot:
  assumes "r < 20" "w < (20::nat)" "i < (w + 20 - r) mod 20"
  shows "(r + i) mod 20 \<noteq> w"
proof -
  have i: "i < 20" using assms(3) by (meson less_trans mod_less_divisor zero_less_numeral)
  show ?thesis
    unfolding slot_of_index [OF assms(1) i]
    using assms(3) unfolding queued_count_cases [OF assms(1,2)]
    using assms(1,2) by (auto split: if_splits)
qed

lemma queued_empty: "midiReadOffset st = midiWriteOffset st \<Longrightarrow> queued st = []"
  by (simp add: queued_def MIDI_BUFFER_SIZE_def)

lemma midi_inv_init: "midi_inv midi_init"
  by (simp add: midi_inv_def midi_init_def MIDI_BUFFER_SIZE_def)

lemma midiSend_inv: "midi_inv st \<Longrightarrow> midi_inv (snd (midiSend millisec s x y st))"
  by (simp add: midi_inv_def midiSend_def MIDI_BUFFER_SIZE_def unat_next_offset)

lemma midiSend_full:
  assumes "midi_inv st" "length (queued st) = 19"
  shows "midiSend millisec s x y st = (1, st)"
proof -
  have "(unat (midiWriteOffset st) + 1) mod 20 = unat (midiReadOffset st)"
    using assms full_iff [of "unat (midiReadOffset st)" "unat (midiWriteOffset st)"]
    by (simp add: midi_inv_def MIDI_BUFFER_SIZE_def queued_length)
  then show ?thesis
    by (simp add: midiSend_def MIDI_BUFFER_SIZE_def)
qed

lemma midiSend_room:
  assumes "midi_inv st" "length (queued st) \<noteq> 19"
  shows "fst (midiSend millisec s x y st) = 0"
    and "queued (snd (midiSend millisec s x y st))
           = queued st @ [event_of (millisec, s, x, y)]"
proof -
  let ?r = "unat (midiReadOffset st)" and ?w = "unat (midiWriteOffset st)"
  let ?e = "event_of (millisec, s, x, y)"
  let ?n = "(?w + 20 - ?r) mod 20"
  have r: "?r < 20" and w: "?w < 20" and len: "length (midiMessages st) = 20"
    using assms(1) by (simp_all add: midi_inv_def MIDI_BUFFER_SIZE_def)
  have nf: "(?w + 1) mod 20 \<noteq> ?r"
    using assms(2) full_iff [OF r w] by (simp add: queued_length)
  define st' where "st' = st\<lparr>midiMessages := (midiMessages st)[?w := ?e],
                             midiWriteOffset := (midiWriteOffset st + 1) mod 20\<rparr>"
  have send: "midiSend millisec s x y st = (0, st')"
    using nf by (simp add: midiSend_def MIDI_BUFFER_SIZE_def st'_def event_of_def)
  show "fst (midiSend millisec s x y st) = 0"
    by (simp add: send)
  have n': "(unat (midiWriteOffset st') + 20 - unat (midiReadOffset st')) mod 20 = Suc ?n"
    using count_after_send [OF r w nf] w by (simp add: st'_def unat_next_offset)
  have "queued st' = map (\<lambda>i. (midiMessages st)[?w := ?e] ! ((?r + i) mod 20)) [0 ..< Suc ?n]"
    unfolding queued_def MIDI_BUFFER_SIZE_def n' by (simp add: st'_def del: upt_Suc)
  also have "\<dots> = map (\<lambda>i. (midiMessages st)[?w := ?e] ! ((?r + i) mod 20)) [0 ..< ?n]
                    @ [(midiMessages st)[?w := ?e] ! ((?r + ?n) mod 20)]"
    by simp
  also have "(midiMessages st)[?w := ?e] ! ((?r + ?n) mod 20) = ?e"
    using last_slot [OF r w] w len by simp
  also have "map (\<lambda>i. (midiMessages st)[?w := ?e] ! ((?r + i) mod 20)) [0 ..< ?n]
           = map (\<lambda>i. midiMessages st ! ((?r + i) mod 20)) [0 ..< ?n]"
    using earlier_slot [OF r w, THEN not_sym] by (intro map_cong refl) simp
  also have "\<dots> = queued st"
    by (simp add: queued_def MIDI_BUFFER_SIZE_def)
  finally show "queued (snd (midiSend millisec s x y st)) = queued st @ [?e]"
    by (simp add: send)
qed

lemma queued_length_le:
  "length (queued st) \<le> 19"
proof -
  have "(unat (midiWriteOffset st) + 20 - unat (midiReadOffset st)) mod 20 < 20" by simp
  then show ?thesis unfolding queued_length by linarith
qed

text \<open>
  Filling any buffer: with \<open>k\<close> events queued, the next \<open>19 - k\<close> calls succeed, every
  later call is refused, and the buffer holds the old events followed by the accepted ones.
\<close>

lemma midiSend_all_fill:
  assumes "midi_inv st"
  shows "fst (midiSend_all cs st)
           = replicate (min (19 - length (queued st)) (length cs)) 0
             @ replicate (length cs - (19 - length (queued st))) 1
       \<and> queued (snd (midiSend_all cs st))
           = queued st @ map event_of (take (19 - length (queued st)) cs)"
  using assms
proof (induction cs arbitrary: st)
  case Nil
  then show ?case by simp
next
  case (Cons c cs)
  obtain t s x y where c: "c = (t, s, x, y)" by (cases c) auto
  show ?case
  proof (cases "length (queued st) = 19")
    case True
    have full: "midiSend t s x y st = (1, st)"
      by (rule midiSend_full [OF Cons.prems True])
    from Cons.IH [OF Cons.prems] True full c show ?thesis
      by (simp add: replicate_app_Cons_same split_beta)
  next
    case False
    define st' where "st' = snd (midiSend t s x y st)"
    have r0: "fst (midiSend t s x y st) = 0"
      and q': "queued st' = queued st @ [event_of c]"
      using midiSend_room [OF Cons.prems False, of t s x y] by (simp_all add: st'_def c)
    have inv': "midi_inv st'"
      unfolding st'_def by (rule midiSend_inv [OF Cons.prems])
    have k: "length (queued st) < 19"
      using False queued_length_le [of st] by linarith
    then have n19: "19 - length (queued st) = Suc (19 - Suc (length (queued st)))"
      by simp
    have send: "midiSend t s x y st = (0, st')"
      using r0 by (simp add: st'_def prod_eq_iff)
    show ?thesis
      using Cons.IH [OF inv'] unfolding q' c midiSend_all.simps send prod.case n19
      by (simp add: split_beta c)
  qed
qed

text \<open>
  C3, as the code has it. The buffer of 20 slots keeps one slot free, so that a full buffer
  differs from an empty one: of any sequence of \<open>midiSend\<close> calls on an empty buffer,
  wherever its two cursors stand, the first 19 return 0, the 20th and every later call
  return 1, and the buffer holds exactly the first 19 events, in order.
\<close>

theorem midiSend_capacity_19:
  assumes "midi_inv st" and "midiReadOffset st = midiWriteOffset st"
  shows "fst (midiSend_all cs st)
           = replicate (min 19 (length cs)) 0 @ replicate (length cs - 19) 1
       \<and> queued (snd (midiSend_all cs st)) = map event_of (take 19 cs)"
  using midiSend_all_fill [OF assms(1), of cs] queued_empty [OF assms(2)]
  by simp

theorem midiSend_capacity_19_witness:
  "midi_inv drained_at_18
   \<and> midiReadOffset drained_at_18 = midiWriteOffset drained_at_18
   \<and> midiReadOffset drained_at_18 = 18
   \<and> fst (midiSend_all (note_calls 21) drained_at_18) = replicate 19 0 @ [1, 1]
   \<and> queued (snd (midiSend_all (note_calls 21) drained_at_18))
       = map event_of (take 19 (note_calls 21))"
proof -
  have h: "(let st = drained_at_18
            in midi_inv st \<and> midiReadOffset st = 18 \<and> midiWriteOffset st = 18)"
    by code_simp
  have h1: "midi_inv drained_at_18"
    and h3: "midiReadOffset drained_at_18 = 18"
    and h2: "midiReadOffset drained_at_18 = midiWriteOffset drained_at_18"
    using h by (simp_all add: Let_def)
  have n: "length (note_calls 21) = 21" by (simp add: note_calls_def)
  show ?thesis
    using midiSend_capacity_19 [OF h1 h2, of "note_calls 21"] h1 h2 h3
    unfolding n by (simp add: numeral_2_eq_2)
qed

text \<open>
  C3 as the claim states it, with N = 20, fails on 21 calls: the 21st call is refused, as
  the 20th was, and the buffer holds 19 events, not the first 20.
\<close>

theorem midiSend_capacity_20_counterexample:
  "\<not> (fst (midiSend_all (note_calls 21) midi_init) ! 20 = 1
      \<and> queued (snd (midiSend_all (note_calls 21) midi_init))
          = map event_of (take 20 (note_calls 21)))"
proof -
  have "queued midi_init = []"
    by (simp add: queued_empty midi_init_def)
  then have "length (queued (snd (midiSend_all (note_calls 21) midi_init))) = 19"
    using midiSend_all_fill [OF midi_inv_init, of "note_calls 21"]
    by (simp add: note_calls_def)
  moreover have "length (map event_of (take 20 (note_calls 21))) = 20"
    by (simp add: note_calls_def)
  ultimately show ?thesis by auto
qed

section \<open>Properties of the encoder\<close>

lemma queued_count_step:
  assumes "r < 20" "w < 20" "r \<noteq> w"
  shows "(w + 20 - r) mod 20 = Suc ((w + 20 - (r + 1) mod 20) mod (20::nat))"
proof (cases "r = 19")
  case True
  then have r: "(r + 1) mod 20 = 0" by simp
  have "(w + 20 - r) mod 20 = w + 1"
    using assms True by (intro trans [OF mod_less]) linarith+
  moreover have "(w + 20 - 0) mod 20 = w"
    using assms by (simp add: mod20_hi)
  ultimately show ?thesis unfolding r by simp
next
  case False
  with assms have r: "(r + 1) mod 20 = r + 1" by simp
  show ?thesis
  proof (cases "r < w")
    case True
    have "(w + 20 - r) mod 20 = w - r"
      using assms True by (intro trans [OF mod20_hi]) linarith+
    moreover have "(w + 20 - (r + 1)) mod 20 = w - r - 1"
      using assms True by (intro trans [OF mod20_hi]) linarith+
    ultimately show ?thesis unfolding r using True by linarith
  next
    case False
    have "(w + 20 - r) mod 20 = w + 20 - r"
      using assms False by (intro mod_less) linarith
    moreover have "(w + 20 - (r + 1)) mod 20 = w + 20 - (r + 1)"
      using assms False by (intro mod_less) linarith
    ultimately show ?thesis unfolding r using False assms by linarith
  qed
qed

lemma queued_step:
  assumes "unat (midiReadOffset st) < 20" "unat (midiWriteOffset st) < 20"
    "midiReadOffset st \<noteq> midiWriteOffset st"
  shows "queued st = midiMessages st ! unat (midiReadOffset st)
           # queued (st\<lparr>midiPacket := pkt, midiReadOffset := (midiReadOffset st + 1) mod 20\<rparr>)"
proof -
  let ?r = "unat (midiReadOffset st)" and ?w = "unat (midiWriteOffset st)"
  let ?f = "\<lambda>i. midiMessages st ! ((?r + i) mod 20)"
  let ?n = "(?w + 20 - (?r + 1) mod 20) mod 20"
  have ne: "?r \<noteq> ?w" using assms(3) word_unat_eq_iff by blast
  have n: "(?w + 20 - ?r) mod 20 = Suc ?n"
    by (rule queued_count_step [OF assms(1,2) ne])
  have "queued st = map ?f [0 ..< Suc ?n]"
    unfolding queued_def MIDI_BUFFER_SIZE_def n ..
  also have "\<dots> = ?f 0 # map (\<lambda>i. ?f (Suc i)) [0 ..< ?n]"
    by (rule map_upt_Suc)
  also have "?f 0 = midiMessages st ! ?r"
    using assms(1) by simp
  also have "(\<lambda>i. ?f (Suc i)) = (\<lambda>i. midiMessages st ! (((?r + 1) mod 20 + i) mod 20))"
    by (simp add: mod_add_left_eq)
  finally have "queued st = midiMessages st ! ?r
      # map (\<lambda>i. midiMessages st ! (((?r + 1) mod 20 + i) mod 20)) [0 ..< ?n]" .
  moreover have "queued (st\<lparr>midiPacket := pkt, midiReadOffset := (midiReadOffset st + 1) mod 20\<rparr>)
      = map (\<lambda>i. midiMessages st ! (((?r + 1) mod 20 + i) mod 20)) [0 ..< ?n]"
    unfolding queued_def MIDI_BUFFER_SIZE_def by (simp add: unat_next_offset assms(1))
  ultimately show ?thesis by simp
qed

lemma take_four_updates:
  assumes "n + 4 \<le> length xs"
  shows "take (n + 4) (xs[n := a, Suc n := b, Suc (Suc n) := c, Suc (Suc (Suc n)) := d])
           = take n xs @ [a, b, c, d]"
proof -
  have e: "n + 4 = Suc (Suc (Suc (Suc n)))" by simp
  show ?thesis
    using assms unfolding e
    by (simp add: take_Suc_conv_app_nth nth_list_update)
qed

lemma body_timed:
  assumes "unat byteOffset \<le> 16"
  shows "midiPacketSend_body (- 1) lastTime byteOffset st =
     (byteOffset + 4,
      st\<lparr>midiPacket := (midiPacket st)
             [unat byteOffset := ucast (timestamp (midiMessages st ! unat (midiReadOffset st))) OR push_bit 7 1,
              Suc (unat byteOffset) := status (midiMessages st ! unat (midiReadOffset st)),
              Suc (Suc (unat byteOffset)) := byte1 (midiMessages st ! unat (midiReadOffset st)),
              Suc (Suc (Suc (unat byteOffset))) := byte2 (midiMessages st ! unat (midiReadOffset st))],
          midiReadOffset := (midiReadOffset st + 1) mod 20\<rparr>)"
proof -
  have "(- 1 :: int) \<noteq> uint (status (midiMessages st ! unat (midiReadOffset st)))"
    using uint_ge_0 [of "status (midiMessages st ! unat (midiReadOffset st))"] by linarith
  moreover have "unat (byteOffset + 1) = Suc (unat byteOffset)"
    "unat (byteOffset + 2) = Suc (Suc (unat byteOffset))"
    "unat (byteOffset + 3) = Suc (Suc (Suc (unat byteOffset)))"
    using assms by (simp_all add: unat_word_ariths)
  ultimately show ?thesis
    by (simp add: midiPacketSend_body_def Let_def MIDI_BUFFER_SIZE_def)
qed

lemma midiPacketSend_loop_spec:
  assumes "ls = - 1" "length (midiPacket st) = 20"
    "unat (midiReadOffset st) < 20" "unat (midiWriteOffset st) < 20" "unat byteOffset \<le> 16"
  shows "case midiPacketSend_loop ls lt byteOffset st of (byteOffset', st') \<Rightarrow>
      unat byteOffset'
        = unat byteOffset + 4 * min (length (queued st)) ((16 - unat byteOffset) div 4 + 1)
    \<and> take (unat byteOffset') (midiPacket st')
        = take (unat byteOffset) (midiPacket st)
          @ concat (map timed_record
              (take (min (length (queued st)) ((16 - unat byteOffset) div 4 + 1)) (queued st)))
    \<and> queued st' = drop (min (length (queued st)) ((16 - unat byteOffset) div 4 + 1)) (queued st)
    \<and> midiMessages st' = midiMessages st
    \<and> midiWriteOffset st' = midiWriteOffset st
    \<and> length (midiPacket st') = 20
    \<and> unat (midiReadOffset st') < 20"
  using assms
proof (induction ls lt byteOffset st rule: midiPacketSend_loop.induct)
  case (1 ls lt byteOffset st)
  show ?case
  proof (cases "midiReadOffset st = midiWriteOffset st")
    case True
    then show ?thesis
      using "1.prems" by (simp add: queued_empty)
  next
    case False
    let ?m = "midiMessages st ! unat (midiReadOffset st)"
    define st1 where "st1 = st\<lparr>midiPacket := (midiPacket st)
             [unat byteOffset := ucast (timestamp ?m) OR push_bit 7 1,
              Suc (unat byteOffset) := status ?m,
              Suc (Suc (unat byteOffset)) := byte1 ?m,
              Suc (Suc (Suc (unat byteOffset))) := byte2 ?m],
          midiReadOffset := (midiReadOffset st + 1) mod 20\<rparr>"
    have body: "midiPacketSend_body ls lt byteOffset st = (byteOffset + 4, st1)"
      using "1.prems" by (simp add: body_timed st1_def)
    have bo4: "unat (byteOffset + 4) = unat byteOffset + 4"
      using "1.prems" by (simp add: unat_word_ariths)
    have q: "queued st = ?m # queued st1"
      unfolding st1_def using "1.prems" False by (intro queued_step) simp_all
    have pk: "take (unat byteOffset + 4) (midiPacket st1)
        = take (unat byteOffset) (midiPacket st) @ timed_record ?m"
      unfolding st1_def timed_record_def using "1.prems"
      by (simp add: take_four_updates)
    have st1: "length (midiPacket st1) = 20" "unat (midiReadOffset st1) < 20"
      "midiMessages st1 = midiMessages st" "midiWriteOffset st1 = midiWriteOffset st"
      using "1.prems" by (simp_all add: st1_def unat_next_offset)
    show ?thesis
    proof (cases "unat (byteOffset + 4) + 4 > BLE_PACKET_SIZE")
      case True
      then have k: "(16 - unat byteOffset) div 4 = 0"
        using bo4 by (simp add: BLE_PACKET_SIZE_def)
      have "midiPacketSend_loop ls lt byteOffset st = (byteOffset + 4, st1)"
        using False True body by simp
      then show ?thesis
        using q pk st1 bo4 k by simp
    next
      case room: False
      then have le: "unat (byteOffset + 4) \<le> 16"
        by (simp add: BLE_PACKET_SIZE_def)
      then have k: "(16 - unat byteOffset) div 4 = Suc ((16 - unat (byteOffset + 4)) div 4)"
        unfolding bo4 by presburger
      have loop: "midiPacketSend_loop ls lt byteOffset st
          = midiPacketSend_loop ls lt (byteOffset + 4) st1"
        using False room body by simp
      have w1: "unat (midiWriteOffset st1) < 20" using st1 "1.prems" by simp
      note IH = "1.IH" [OF False body [symmetric] room "1.prems"(1) st1(1,2) w1 le]
      define k1 where "k1 = min (length (queued st1)) ((16 - unat (byteOffset + 4)) div 4 + 1)"
      obtain bo' st' where res: "midiPacketSend_loop ls lt (byteOffset + 4) st1 = (bo', st')"
        by fastforce
      have ih: "unat bo' = unat (byteOffset + 4) + 4 * k1"
        "take (unat bo') (midiPacket st')
           = take (unat (byteOffset + 4)) (midiPacket st1)
             @ concat (map timed_record (take k1 (queued st1)))"
        "queued st' = drop k1 (queued st1)"
        "midiMessages st' = midiMessages st1"
        "midiWriteOffset st' = midiWriteOffset st1"
        "length (midiPacket st') = 20"
        "unat (midiReadOffset st') < 20"
        using IH unfolding res k1_def prod.case by blast+
      have kk: "min (length (queued st)) ((16 - unat byteOffset) div 4 + 1) = Suc k1"
        unfolding q k k1_def by simp
      show ?thesis
        unfolding loop res kk prod.case
        using ih pk unfolding bo4 st1 q
        by simp
    qed
  qed
qed

lemma queued_midiPacket_update: "queued (st\<lparr>midiPacket := p\<rparr>) = queued st"
  by (simp add: queued_def)

text \<open>
  What \<open>midiPacketSend\<close> does on a buffer that is not empty: it consumes the first four
  queued events (all of them when fewer are queued) and sends one header byte followed by
  the four-byte record of each, whatever their status and timestamp.
\<close>

lemma midiPacketSend_spec:
  assumes "midi_inv st" "midiReadOffset st \<noteq> midiWriteOffset st"
  shows "case midiPacketSend st of (n, msg, st') \<Rightarrow>
      n = 1 + 4 * int (min (length (queued st)) 4)
    \<and> (\<exists>h. msg = Some (h # concat (map timed_record (take (min (length (queued st)) 4) (queued st)))))
    \<and> queued st' = drop (min (length (queued st)) 4) (queued st)
    \<and> midi_inv st'"
proof -
  define h where "h = (ucast (drop_bit 7 (timestamp (midiMessages st ! unat (midiReadOffset st))))
      OR push_bit 7 1 :: 8 word) AND NOT (push_bit 6 1)"
  define st1 where "st1 = st\<lparr>midiPacket := (midiPacket st)[0 := h]\<rparr>"
  obtain bo' st' where res: "midiPacketSend_loop (- 1) (- 1) 1 st1 = (bo', st')"
    by fastforce
  have send: "midiPacketSend st = (uint bo', Some (take (unat bo') (midiPacket st')), st')"
    using assms(2) res by (simp add: midiPacketSend_def Let_def h_def st1_def)
  have inv1: "length (midiPacket st1) = 20" "unat (midiReadOffset st1) < 20"
    "unat (midiWriteOffset st1) < 20" "length (midiMessages st1) = 20"
    using assms(1) by (simp_all add: midi_inv_def st1_def MIDI_BUFFER_SIZE_def BLE_PACKET_SIZE_def)
  have q1: "queued st1 = queued st"
    by (simp add: st1_def queued_midiPacket_update)
  have one: "unat (1 :: 8 word) \<le> 16" by simp
  have spec: "unat bo' = unat (1 :: 8 word) + 4 * min (length (queued st1)) ((16 - unat (1 :: 8 word)) div 4 + 1)"
    "take (unat bo') (midiPacket st')
        = take (unat (1 :: 8 word)) (midiPacket st1)
          @ concat (map timed_record
              (take (min (length (queued st1)) ((16 - unat (1 :: 8 word)) div 4 + 1)) (queued st1)))"
    "queued st' = drop (min (length (queued st1)) ((16 - unat (1 :: 8 word)) div 4 + 1)) (queued st1)"
    "midiMessages st' = midiMessages st1"
    "midiWriteOffset st' = midiWriteOffset st1"
    "length (midiPacket st') = 20"
    "unat (midiReadOffset st') < 20"
    using midiPacketSend_loop_spec [OF refl inv1(1,2,3) one, of "- 1"]
    unfolding res prod.case by blast+
  have k: "(16 - unat (1 :: 8 word)) div 4 + 1 = 4" by simp
  have t1: "take (unat (1 :: 8 word)) (midiPacket st1) = [h]"
    using assms(1) by (cases "midiPacket st") (simp_all add: st1_def midi_inv_def BLE_PACKET_SIZE_def)
  have n: "uint bo' = 1 + 4 * int (min (length (queued st)) 4)"
    using spec(1) unfolding k q1 by (simp add: uint_nat)
  have inv': "midi_inv st'"
    using spec(4-7) inv1 by (simp add: midi_inv_def MIDI_BUFFER_SIZE_def BLE_PACKET_SIZE_def)
  show ?thesis
    unfolding send prod.case
    using n spec(2,3) inv' unfolding k q1 t1 by simp
qed

lemma queued_nonempty:
  assumes "midi_inv st" "midiReadOffset st \<noteq> midiWriteOffset st"
  shows "queued st \<noteq> []"
  using queued_step [of st "midiPacket st"] assms
  by (simp add: midi_inv_def MIDI_BUFFER_SIZE_def)

text \<open>
  The ranges of \<open>midi_inv\<close>, which hold at startup and are kept by \<open>midiSend\<close> (lemmas
  \<open>midi_inv_init\<close> and \<open>midiSend_inv\<close>), are kept by \<open>midiPacketSend\<close> as well.
\<close>

lemma midiPacketSend_inv:
  assumes "midi_inv st"
  shows "midi_inv (snd (snd (midiPacketSend st)))"
proof (cases "midiReadOffset st = midiWriteOffset st")
  case True
  with assms show ?thesis by (simp add: midiPacketSend_def)
next
  case False
  from midiPacketSend_spec [OF assms False] show ?thesis
    by (simp add: split_beta)
qed

section \<open>Properties of the decoder\<close>

lemma timed_high_bit: "(x OR push_bit 7 1 :: 8 word) AND push_bit 7 1 \<noteq> 0"
proof -
  have "(x OR push_bit 7 1 :: 8 word) AND push_bit 7 1 = push_bit 7 1"
    by (rule bit_eqI) (auto simp: bit_simps)
  then show ?thesis by simp
qed

lemma midiRead_timed:
  assumes "\<not> midiPacketBegin s" "\<not> is_sentinel m"
  shows "midiRead s out (timed_record m @ rest)
    = (uint (ucast (timestamp m) OR push_bit 7 1 :: 8 word),
       s\<lparr>lastStatus := uint (status m)\<rparr>, (status m, byte1 m, byte2 m), rest)"
  using assms timed_high_bit [of "ucast (timestamp m)"]
  by (simp add: midiRead_def timed_record_def is_sentinel_def Let_def)

lemma midiRead_header_timed:
  assumes "midiPacketBegin s" "\<not> is_sentinel m"
  shows "midiRead s out (h # timed_record m @ rest)
    = (uint (ucast (timestamp m) OR push_bit 7 1 :: 8 word),
       s\<lparr>midiPacketBegin := False, lastStatus := uint (status m)\<rparr>,
       (status m, byte1 m, byte2 m), rest)"
  using assms timed_high_bit [of "ucast (timestamp m)"]
  by (simp add: midiRead_def timed_record_def is_sentinel_def Let_def)

lemma midiRead_n_timed:
  assumes "\<not> midiPacketBegin s" "\<forall>m \<in> set ms. \<not> is_sentinel m"
  shows "midiRead_n (length ms) s out (concat (map timed_record ms) @ rest)
    = map (\<lambda>m. (uint (ucast (timestamp m) OR push_bit 7 1 :: 8 word),
                 status m, byte1 m, byte2 m)) ms"
  using assms
proof (induction ms arbitrary: s out)
  case Nil
  then show ?case by simp
next
  case (Cons m ms)
  have "midiRead s out (timed_record m @ concat (map timed_record ms) @ rest)
    = (uint (ucast (timestamp m) OR push_bit 7 1 :: 8 word),
       s\<lparr>lastStatus := uint (status m)\<rparr>, (status m, byte1 m, byte2 m),
       concat (map timed_record ms) @ rest)"
    using Cons.prems by (intro midiRead_timed) simp_all
  moreover have "midiRead_n (length ms) (s\<lparr>lastStatus := uint (status m)\<rparr>)
      (status m, byte1 m, byte2 m) (concat (map timed_record ms) @ rest)
    = map (\<lambda>m. (uint (ucast (timestamp m) OR push_bit 7 1 :: 8 word),
                 status m, byte1 m, byte2 m)) ms"
    using Cons.prems by (intro Cons.IH) simp_all
  ultimately show ?case by simp
qed

lemma midiRead_n_packet:
  assumes "midiPacketBegin s" "\<forall>m \<in> set ms. \<not> is_sentinel m" "ms \<noteq> []"
  shows "midiRead_n (length ms) s out (h # concat (map timed_record ms))
    = map (\<lambda>m. (uint (ucast (timestamp m) OR push_bit 7 1 :: 8 word),
                 status m, byte1 m, byte2 m)) ms"
proof -
  from assms(3) obtain m ms' where ms: "ms = m # ms'" by (cases ms) auto
  have "midiRead s out (h # timed_record m @ concat (map timed_record ms'))
    = (uint (ucast (timestamp m) OR push_bit 7 1 :: 8 word),
       s\<lparr>midiPacketBegin := False, lastStatus := uint (status m)\<rparr>,
       (status m, byte1 m, byte2 m), concat (map timed_record ms'))"
    using assms ms by (intro midiRead_header_timed) simp_all
  moreover have "midiRead_n (length ms')
      (s\<lparr>midiPacketBegin := False, lastStatus := uint (status m)\<rparr>)
      (status m, byte1 m, byte2 m) (concat (map timed_record ms') @ [])
    = map (\<lambda>m. (uint (ucast (timestamp m) OR push_bit 7 1 :: 8 word),
                 status m, byte1 m, byte2 m)) ms'"
    using assms ms by (intro midiRead_n_timed) simp_all
  ultimately show ?thesis unfolding ms by simp
qed

lemma low7: "uint (ucast (t :: 32 word) OR push_bit 7 1 :: 8 word) mod 128 = uint t mod 128"
proof -
  have a: "take_bit 7 (ucast t OR push_bit 7 1 :: 8 word) = take_bit 7 (ucast t)"
    by (rule bit_eqI) (auto simp: bit_simps)
  have "uint (ucast t OR push_bit 7 1 :: 8 word) mod 128
      = take_bit 7 (uint (ucast t OR push_bit 7 1 :: 8 word))"
    by (simp add: take_bit_eq_mod)
  also have "\<dots> = uint (take_bit 7 (ucast t OR push_bit 7 1 :: 8 word))"
    by (simp only: unsigned_take_bit_eq)
  also have "\<dots> = uint (take_bit 7 (ucast t :: 8 word))"
    by (simp only: a)
  also have "\<dots> = take_bit 7 (take_bit 8 (uint t))"
    by (simp add: unsigned_take_bit_eq unsigned_ucast_eq)
  also have "\<dots> = uint t mod 128"
    by (simp add: take_bit_eq_mod mod_mod_cancel)
  finally show ?thesis .
qed

lemma int_high_half: "128 \<le> z \<Longrightarrow> z < 256 \<Longrightarrow> z = 128 + z mod (128::int)"
  by presburger

lemma uint_timed: "uint (ucast (t :: 32 word) OR push_bit 7 1 :: 8 word) = 128 + uint t mod 128"
proof -
  let ?w = "ucast t OR push_bit 7 1 :: 8 word"
  have "uint ?w = uint (push_bit 7 1 :: 8 word) OR uint (ucast t :: 8 word)"
    by (simp add: uint_or or.commute)
  then have lo: "128 \<le> uint ?w"
    using or_greater_eq [of "uint (ucast t :: 8 word)" "uint (push_bit 7 1 :: 8 word)"]
    by simp
  have hi: "uint ?w < 256"
    using uint_bounded [of ?w] by simp
  show ?thesis
    using int_high_half [OF lo hi] unfolding low7 .
qed

section \<open>Encoding, then decoding\<close>

text \<open>
  C1, as the code has it. Let the buffer be non-empty and let none of its first four events
  be of the shape that the decoder takes for the end of a packet (status, data1 and data2
  all 0xFF, timestamp 127 modulo 128). Then \<open>midiPacketSend\<close> consumes the first four
  queued events (all of them when fewer are queued), the others stay queued, and as many
  calls of \<open>midiRead\<close> on the bytes of the packet, from a session at the beginning of a
  packet, return for each consumed event, in the order of enqueueing, a non-zero value
  whose low seven bits are the timestamp modulo 128, with the event's status, data1 and
  data2 in the outputs.
\<close>

theorem midi_roundtrip:
  assumes "midi_inv st"
    and "midiReadOffset st \<noteq> midiWriteOffset st"
    and "list_all (\<lambda>m. \<not> is_sentinel m) (take 4 (queued st))"
    and "midiPacketBegin s"
  shows "case midiPacketSend st of (n, msg, st') \<Rightarrow>
           take 4 (queued st) \<noteq> []
         \<and> queued st' = drop 4 (queued st)
         \<and> msg \<noteq> None
         \<and> midiRead_n (length (take 4 (queued st))) s out (the msg)
             = map (\<lambda>m. (128 + uint (timestamp m) mod 128, status m, byte1 m, byte2 m))
                 (take 4 (queued st))"
proof -
  let ?ms = "take 4 (queued st)"
  have k: "take (min (length (queued st)) 4) (queued st) = ?ms"
    "drop (min (length (queued st)) 4) (queued st) = drop 4 (queued st)"
    by (simp_all add: min_def)
  have ne: "?ms \<noteq> []"
    using queued_nonempty [OF assms(1,2)] by simp
  have ns: "\<forall>m \<in> set ?ms. \<not> is_sentinel m"
    using assms(3) by (simp add: list_all_iff)
  obtain n msg st' where res: "midiPacketSend st = (n, msg, st')"
    by (cases "midiPacketSend st") auto
  from midiPacketSend_spec [OF assms(1,2)] obtain h where
    msg: "msg = Some (h # concat (map timed_record ?ms))"
    and q': "queued st' = drop 4 (queued st)"
    unfolding res prod.case k by blast
  have "midiRead_n (length ?ms) s out (h # concat (map timed_record ?ms))
      = map (\<lambda>m. (uint (ucast (timestamp m) OR push_bit 7 1 :: 8 word),
                   status m, byte1 m, byte2 m)) ?ms"
    by (rule midiRead_n_packet [OF assms(4) ns ne])
  then have "midiRead_n (length ?ms) s out (h # concat (map timed_record ?ms))
      = map (\<lambda>m. (128 + uint (timestamp m) mod 128, status m, byte1 m, byte2 m)) ?ms"
    by (simp only: uint_timed)
  then show ?thesis
    unfolding res prod.case using ne q' msg by simp
qed

lemma two_notes_queued:
  "queued two_notes = [\<lparr>timestamp = 5, status = 0x90, byte1 = 60, byte2 = 100\<rparr>,
                       \<lparr>timestamp = 5, status = 0x90, byte1 = 64, byte2 = 100\<rparr>]"
  by code_simp

theorem midi_roundtrip_witness:
  "midi_inv two_notes
   \<and> midiReadOffset two_notes \<noteq> midiWriteOffset two_notes
   \<and> list_all (\<lambda>m. \<not> is_sentinel m) (take 4 (queued two_notes))
   \<and> midiPacketBegin keepAwake_session
   \<and> (case midiPacketSend two_notes of (n, msg, st') \<Rightarrow>
         queued st' = []
       \<and> msg \<noteq> None
       \<and> midiRead_n 2 keepAwake_session (0, 0, 0) (the msg)
           = [(133, 0x90, 60, 100), (133, 0x90, 64, 100)])"
proof -
  have h1: "midi_inv two_notes" by code_simp
  have h2: "midiReadOffset two_notes \<noteq> midiWriteOffset two_notes" by code_simp
  have h3: "list_all (\<lambda>m. \<not> is_sentinel m) (take 4 (queued two_notes))" by code_simp
  have h4: "midiPacketBegin keepAwake_session" by code_simp
  have e: "length (take 4 (queued two_notes)) = 2"
    unfolding two_notes_queued by simp
  have m: "map (\<lambda>m. (128 + uint (timestamp m) mod 128, status m, byte1 m, byte2 m))
             (take 4 (queued two_notes))
           = [(133, 0x90, 60, 100), (133, 0x90, 64, 100)]"
    unfolding two_notes_queued by simp
  have d: "drop 4 (queued two_notes) = []"
    unfolding two_notes_queued by simp
  show ?thesis
    using midi_roundtrip [OF h1 h2 h3 h4, of "(0, 0, 0)", unfolded e m d] h1 h2 h3 h4
    by (simp add: split_beta)
qed

text \<open>
  C1 as the claim states it, for every non-empty buffer, fails on the buffer that holds the
  event (0xFF, 0xFF, 0xFF) of time 127 followed by a note-on: the record of the first event
  is the end-of-packet sequence, so the first \<open>midiRead\<close> returns 0 and goes back to the
  beginning of a packet, where the four bytes left are too few to proceed; the second call
  returns 0 as well and the note-on is never delivered.
\<close>

theorem midi_roundtrip_counterexample:
  "queued reset_then_note
     = [\<lparr>timestamp = 127, status = 0xFF, byte1 = 0xFF, byte2 = 0xFF\<rparr>,
        \<lparr>timestamp = 130, status = 0x90, byte1 = 64, byte2 = 100\<rparr>]
   \<and> fst (snd (midiPacketSend reset_then_note))
       = Some [0x80, 0xFF, 0xFF, 0xFF, 0xFF, 0x82, 0x90, 64, 100]
   \<and> queued (snd (snd (midiPacketSend reset_then_note))) = []
   \<and> midiRead_n 2 keepAwake_session (0, 0, 0) [0x80, 0xFF, 0xFF, 0xFF, 0xFF, 0x82, 0x90, 64, 100]
       = [(0, 0xFF, 0xFF, 0xFF), (0, 0xFF, 0xFF, 0xFF)]
   \<and> map snd (midiRead_n 2 keepAwake_session (0, 0, 0)
                  [0x80, 0xFF, 0xFF, 0xFF, 0xFF, 0x82, 0x90, 64, 100])
       \<noteq> [(0xFF, 0xFF, 0xFF), (0x90, 64, 100)]"
  by code_simp

section \<open>Running status on the encode path\<close>

text \<open>
  C2. Two consecutive queued events with the same status (0x90) and the same timestamp (5)
  should cost four bytes and then two. The locals \<^verbatim>\<open>lastStatus\<close> and \<^verbatim>\<open>lastTime\<close> of
  \<^verbatim>\<open>midiPacketSend\<close> keep their initial value -1, which no status equals, so the
  two-byte branch is never taken: the packet has 9 bytes, the header and two full records.
\<close>

theorem midiPacketSend_two_notes_nine_bytes:
  "queued two_notes = [\<lparr>timestamp = 5, status = 0x90, byte1 = 60, byte2 = 100\<rparr>,
                       \<lparr>timestamp = 5, status = 0x90, byte1 = 64, byte2 = 100\<rparr>]
   \<and> fst (midiPacketSend two_notes) = 9
   \<and> fst (snd (midiPacketSend two_notes))
       = Some [0x80, 0x85, 0x90, 60, 100, 0x85, 0x90, 64, 100]"
  by code_simp

section \<open>The end of a packet and running status in the decoder\<close>

lemma midiRead_sentinel_body:
  assumes "\<not> midiPacketBegin s"
  shows "midiRead s out (0xFF # 0xFF # 0xFF # 0xFF # rest)
           = (0, s\<lparr>midiPacketBegin := True, lastStatus := 255\<rparr>, (0xFF, 0xFF, 0xFF), rest)"
  using assms by (simp add: midiRead_def Let_def)

lemma midiRead_sentinel_begin:
  assumes "midiPacketBegin s"
  shows "midiRead s out (h # 0xFF # 0xFF # 0xFF # 0xFF # rest)
           = (0, s\<lparr>midiPacketBegin := True, lastStatus := 255\<rparr>, (0xFF, 0xFF, 0xFF), rest)"
  using assms by (simp add: midiRead_def Let_def)

lemma midiRead_running_body:
  assumes "b1 AND push_bit 7 1 = 0" "\<not> midiPacketBegin s"
  shows "midiRead s out (b1 # b2 # rest)
           = (uint b1, s\<lparr>midiPacketBegin := False\<rparr>,
              (word_of_int (lastStatus s), b1, b2), rest)"
  using assms by (simp add: midiRead_def Let_def)

lemma midiRead_running_begin:
  assumes "b1 AND push_bit 7 1 = 0" "midiPacketBegin s" "2 \<le> length rest"
  shows "midiRead s out (h # b1 # b2 # rest)
           = (uint b1, s\<lparr>midiPacketBegin := False\<rparr>,
              (word_of_int (lastStatus s), b1, b2), rest)"
  using assms by (simp add: midiRead_def Let_def)

lemma midiRead_empty: "midiRead s out [] = (0, s, out, [])"
  by (simp add: midiRead_def Let_def)

text \<open>
  C9. A call of \<open>midiRead\<close> whose four-byte message is 0xFF 0xFF 0xFF 0xFF, met in the body
  of a packet or right after the header byte that the same call consumed, returns 0 (no
  event) and leaves the session at the beginning of a packet. The four bytes are consumed;
  the outputs and \<open>lastStatus\<close> have been assigned 0xFF before the test.
\<close>

theorem midiRead_sentinel:
  assumes "(\<not> midiPacketBegin s \<and> rx = 0xFF # 0xFF # 0xFF # 0xFF # rest)
         \<or> (midiPacketBegin s \<and> rx = h # 0xFF # 0xFF # 0xFF # 0xFF # rest)"
  shows "midiRead s out rx
           = (0, s\<lparr>midiPacketBegin := True, lastStatus := 255\<rparr>, (0xFF, 0xFF, 0xFF), rest)"
  using assms midiRead_sentinel_body [of s out rest] midiRead_sentinel_begin [of s out h rest]
  by blast

theorem midiRead_sentinel_witness:
  "midiPacketBegin keepAwake_session
   \<and> midiRead keepAwake_session (1, 2, 3) [0x80, 0xFF, 0xFF, 0xFF, 0xFF, 0x85, 0x90, 60, 100]
       = (0, \<lparr>midiPacketBegin = True, lastStatus = 255\<rparr>, (0xFF, 0xFF, 0xFF), [0x85, 0x90, 60, 100])"
proof -
  have h: "(\<not> midiPacketBegin keepAwake_session
       \<and> [0x80, 0xFF, 0xFF, 0xFF, 0xFF, 0x85, 0x90, 60, 100]
            = 0xFF # 0xFF # 0xFF # 0xFF # [0x85, 0x90, 60, 100 :: 8 word])
    \<or> (midiPacketBegin keepAwake_session
       \<and> [0x80, 0xFF, 0xFF, 0xFF, 0xFF, 0x85, 0x90, 60, 100]
            = 0x80 # 0xFF # 0xFF # 0xFF # 0xFF # [0x85, 0x90, 60, 100 :: 8 word])"
    by (simp add: keepAwake_session_def)
  show ?thesis
    using midiRead_sentinel [OF h, of "(1, 2, 3)"] by (simp add: keepAwake_session_def)
qed

text \<open>
  C10. A call of \<open>midiRead\<close> that takes the running-status branch (the first byte of the
  message has bit 7 clear and two bytes are there, in the body of a packet or right after
  the header byte that the same call consumed) consumes the two bytes, writes the status
  kept in \<open>lastStatus\<close> and both data bytes to the outputs and returns the first data byte.
  A call with no inbound byte returns 0 and changes nothing, so for a first data byte 0 the
  two returned values are the same.
\<close>

theorem midiRead_running_status:
  assumes "b1 AND push_bit 7 1 = 0"
    and "(\<not> midiPacketBegin s \<and> rx = b1 # b2 # rest)
       \<or> (midiPacketBegin s \<and> rx = h # b1 # b2 # rest \<and> 2 \<le> length rest)"
  shows "midiRead s out rx
           = (uint b1, s\<lparr>midiPacketBegin := False\<rparr>,
              (word_of_int (lastStatus s), b1, b2), rest)
       \<and> midiRead s out [] = (0, s, out, [])"
  using assms midiRead_running_body [of b1 s out b2 rest]
    midiRead_running_begin [of b1 s rest out h b2] midiRead_empty [of s out]
  by blast

theorem midiRead_running_status_witness:
  "(0 :: 8 word) AND push_bit 7 1 = 0
   \<and> \<not> midiPacketBegin \<lparr>midiPacketBegin = False, lastStatus = 0x90\<rparr>
   \<and> midiRead \<lparr>midiPacketBegin = False, lastStatus = 0x90\<rparr> (1, 2, 3) [0, 7, 9]
       = (0, \<lparr>midiPacketBegin = False, lastStatus = 0x90\<rparr>, (0x90, 0, 7), [9])
   \<and> midiRead \<lparr>midiPacketBegin = False, lastStatus = 0x90\<rparr> (1, 2, 3) []
       = (0, \<lparr>midiPacketBegin = False, lastStatus = 0x90\<rparr>, (1, 2, 3), [])"
proof -
  have h1: "(0 :: 8 word) AND push_bit 7 1 = 0" by simp
  have h2: "(\<not> midiPacketBegin \<lparr>midiPacketBegin = False, lastStatus = 0x90\<rparr>
          \<and> [0, 7, 9] = 0 # 7 # [9 :: 8 word])
      \<or> (midiPacketBegin \<lparr>midiPacketBegin = False, lastStatus = 0x90\<rparr>
          \<and> [0, 7, 9] = 0 # 0 # 7 # [9 :: 8 word] \<and> 2 \<le> length [9 :: 8 word])"
    by simp
  show ?thesis
    using midiRead_running_status [OF h1 h2, of "(1, 2, 3)"] by simp
qed

section \<open>Properties of the power sequencer\<close>

lemma bit_restore:
  assumes "bit_is_set x b"
  shows "(x AND NOT (BV b)) OR BV b = x"
proof -
  have bx: "bit x b"
    using assms by (simp add: bit_is_set_def BV_def push_bit_of_1 and_exp_eq_0_iff_not_bit)
  show ?thesis
    unfolding BV_def push_bit_of_1
    using bx by (intro bit_eqI) (auto simp: bit_simps)
qed

lemma emit_analog_regs: "analog_regs (emit e st) = analog_regs st"
  by (simp add: analog_regs_def emit_def)

lemma read_PIND_analog_regs: "analog_regs (snd (read_PIND pind st)) = analog_regs st"
  by (simp add: analog_regs_def read_PIND_def)

lemma attemptSleep_loop_analog_regs:
  "analog_regs (snd (attemptSleep_loop pind sleepLineSet pollCount st)) = analog_regs st"
proof (induction pind sleepLineSet pollCount st rule: attemptSleep_loop.induct)
  case (1 pind sleepLineSet pollCount st)
  show ?case
  proof (cases "sleepLineSet = False \<and> unat pollCount < MAX_SLEEP_POLL")
    case True
    obtain v st' where r: "read_PIND pind (emit (Delay 1) st) = (v, st')"
      by fastforce
    have "analog_regs st' = analog_regs st"
      using read_PIND_analog_regs [of pind "emit (Delay 1) st"] r
      by (simp add: emit_analog_regs)
    moreover have "analog_regs (snd (attemptSleep_loop pind
        (if v AND BV 3 > 0 then True else sleepLineSet) (pollCount + 1) st')) = analog_regs st'"
      using "1.IH" [OF True r [symmetric]] .
    moreover have "attemptSleep_loop pind sleepLineSet pollCount st
        = attemptSleep_loop pind (if v AND BV 3 > 0 then True else sleepLineSet) (pollCount + 1) st'"
      using True r by (subst attemptSleep_loop.simps) simp
    ultimately show ?thesis by simp
  next
    case False
    then show ?thesis by (subst attemptSleep_loop.simps) auto
  qed
qed

lemma attemptSleep_analog_regs:
  "analog_regs (snd (attemptSleep pind duration_ms st)) = analog_regs st"
  unfolding attemptSleep_def Let_def
  by (simp add: attemptSleep_loop_analog_regs emit_analog_regs) (simp add: analog_regs_def)

lemma sleep_retry_analog_regs:
  "analog_regs (snd (snd (sleep_retry pind duration_ms sleeping st))) = analog_regs st"
proof (induction pind duration_ms sleeping st rule: sleep_retry.induct)
  case (1 pind duration_ms sleeping st)
  show ?case
  proof (cases "unat duration_ms > 0 \<and> False = sleeping")
    case True
    let ?d = "if unat duration_ms \<ge> MAX_SLEEP_POLL then duration_ms - of_nat MAX_SLEEP_POLL else 0"
    obtain sleeping' st' where r: "attemptSleep pind ?d st = (sleeping', st')"
      by fastforce
    have "analog_regs st' = analog_regs st"
      using attemptSleep_analog_regs [of pind ?d st] r by simp
    moreover have "analog_regs (snd (snd (sleep_retry pind ?d sleeping' st'))) = analog_regs st'"
      using "1.IH" [OF True r [symmetric]] .
    moreover have "sleep_retry pind duration_ms sleeping st = sleep_retry pind ?d sleeping' st'"
      using True r by (subst sleep_retry.simps) simp
    ultimately show ?thesis by simp
  next
    case False
    then show ?thesis by (subst sleep_retry.simps) auto
  qed
qed

lemma test_and_sleep_analog_regs: "analog_regs (test_and_sleep pind st) = analog_regs st"
  by (simp add: test_and_sleep_def Let_def split_beta emit_analog_regs read_PIND_analog_regs)

lemma disable_restore_analog_regs:
  assumes "disable_peripherals io st = (adc_was_set, ac_was_set, st1)"
    and "analog_regs st2 = analog_regs st1"
  shows "analog_regs (restore_peripherals io adc_was_set ac_was_set st2) = analog_regs st"
  using assms
  by (auto simp: disable_peripherals_def restore_peripherals_def Let_def analog_regs_def
      bit_restore split: if_splits)

lemma sleep_analog_regs: "analog_regs (sleep io pind duration_ms st) = analog_regs st"
proof -
  define st0 where
    "st0 = emit (BTConfigUartSleep UART_SLEEP_NORMAL) (st\<lparr>DDRD := DDRD st AND NOT (BV 3)\<rparr>)"
  have r0: "analog_regs st0 = analog_regs st"
    by (simp add: st0_def emit_analog_regs) (simp add: analog_regs_def)
  show ?thesis
  proof (cases "unat duration_ms < MIN_SLEEP_TIME")
    case True
    then show ?thesis
      using r0 by (simp add: sleep_def Let_def st0_def [symmetric] emit_analog_regs)
  next
    case False
    obtain sleeping st1 where a: "attemptSleep pind duration_ms st0 = (sleeping, st1)"
      by fastforce
    have r1: "analog_regs st1 = analog_regs st"
      using attemptSleep_analog_regs [of pind duration_ms st0] a r0 by simp
    obtain d2 sleeping2 st2 where b:
      "(if \<not> sleeping \<and> unat duration_ms > MAX_DELAY
        then sleep_retry pind duration_ms sleeping st1
        else if \<not> sleeping \<and> unat duration_ms > MAX_SLEEP_POLL
        then (duration_ms, False, emit (Delay (duration_ms - of_nat MAX_SLEEP_POLL)) st1)
        else (duration_ms, sleeping, st1)) = (d2, sleeping2, st2)"
      by (metis prod_cases3)
    have r2: "analog_regs st2 = analog_regs st"
      using b r1 sleep_retry_analog_regs [of pind duration_ms sleeping st1]
      by (auto simp: emit_analog_regs split: if_splits)
    obtain adc_was_set ac_was_set st3 where c:
      "disable_peripherals io st2 = (adc_was_set, ac_was_set, st3)"
      by (metis prod_cases3)
    have r3: "analog_regs (restore_peripherals io adc_was_set ac_was_set (test_and_sleep pind st3))
        = analog_regs st"
      using disable_restore_analog_regs [OF c test_and_sleep_analog_regs] r2 by simp
    have "sleep io pind duration_ms st
        = (if sleeping2 = False then st2
           else restore_peripherals io adc_was_set ac_was_set (test_and_sleep pind st3))"
      using False a b c by (simp add: sleep_def Let_def st0_def [symmetric])
    then show ?thesis
      using r2 r3 by simp
  qed
qed

text \<open>
  C7. Whatever path a call of \<open>sleep\<close> takes (the deep-sleep entry followed by the wake-up,
  or any of the returns before it), \<^verbatim>\<open>ADCSRA\<close> and \<^verbatim>\<open>ACSR\<close> hold after the call what they
  held before it; so the converter and the comparator are enabled after the call exactly
  when they were before.
\<close>

theorem sleep_restores_analog_peripherals:
  "ADCSRA (sleep io pind duration_ms st) = ADCSRA st
   \<and> ACSR (sleep io pind duration_ms st) = ACSR st
   \<and> adc_enabled io (sleep io pind duration_ms st) = adc_enabled io st
   \<and> comparator_enabled io (sleep io pind duration_ms st) = comparator_enabled io st"
  using sleep_analog_regs [of io pind duration_ms st]
  by (simp add: analog_regs_def adc_enabled_def comparator_enabled_def)

lemma attemptSleep_loop_never:
  assumes "unat pollCount + n = 30"
    and "\<forall>k<n. \<not> bit_is_set (pind (pind_reads st + k)) 3"
  shows "attemptSleep_loop pind False pollCount st
    = (False, st\<lparr>pind_reads := pind_reads st + n, trace := trace st @ replicate n (Delay 1)\<rparr>)"
  using assms
proof (induction n arbitrary: pollCount st)
  case 0
  then show ?case
    by (subst attemptSleep_loop.simps) (simp add: MAX_SLEEP_POLL_def)
next
  case (Suc n)
  define st' where "st' = st\<lparr>pind_reads := Suc (pind_reads st), trace := trace st @ [Delay 1]\<rparr>"
  have lt: "unat pollCount < 30" using Suc.prems(1) by simp
  then have pc: "unat (pollCount + 1) + n = 30"
    using Suc.prems(1) by (simp add: unat_word_ariths)
  have v: "\<not> pind (pind_reads st) AND BV 3 > 0"
    using Suc.prems(2) [rule_format, of 0] by (simp add: bit_is_set_def)
  have rd: "read_PIND pind (emit (Delay 1) st) = (pind (pind_reads st), st')"
    by (simp add: read_PIND_def emit_def st'_def)
  have step: "attemptSleep_loop pind False pollCount st = attemptSleep_loop pind False (pollCount + 1) st'"
    using lt v rd by (subst attemptSleep_loop.simps) (simp add: MAX_SLEEP_POLL_def)
  have "\<forall>k<n. \<not> bit_is_set (pind (pind_reads st' + k)) 3"
    using Suc.prems(2) by (auto simp: st'_def)
  from Suc.IH [OF pc this] show ?case
    unfolding step by (simp add: st'_def)
qed

lemma sleep_midrange:
  assumes "30 < unat duration_ms" "unat duration_ms \<le> 30000"
    and "\<forall>k<30. \<not> bit_is_set (pind (pind_reads st + k)) 3"
  shows "sleep io pind duration_ms st
    = st\<lparr>DDRD := DDRD st AND NOT (BV 3),
         pind_reads := pind_reads st + 30,
         trace := trace st
           @ [BTConfigUartSleep UART_SLEEP_NORMAL, Serial_sleep duration_ms, Serial_flush]
           @ replicate 30 (Delay 1) @ [Delay (duration_ms - 30)]\<rparr>"
proof -
  define st0 where
    "st0 = emit Serial_flush (emit (Serial_sleep duration_ms)
       ((emit (BTConfigUartSleep UART_SLEEP_NORMAL) (st\<lparr>DDRD := DDRD st AND NOT (BV 3)\<rparr>))
          \<lparr>DDRD := DDRD st AND NOT (BV 3) AND NOT (BV 3)\<rparr>))"
  have p: "\<forall>k<30. \<not> bit_is_set (pind (pind_reads st0 + k)) 3"
    using assms(3) by (simp add: st0_def emit_def)
  have z: "unat (0 :: 8 word) + 30 = 30" by simp
  have a: "attemptSleep pind duration_ms
      (emit (BTConfigUartSleep UART_SLEEP_NORMAL) (st\<lparr>DDRD := DDRD st AND NOT (BV 3)\<rparr>))
    = (False, st0\<lparr>pind_reads := pind_reads st0 + 30, trace := trace st0 @ replicate 30 (Delay 1)\<rparr>)"
    unfolding attemptSleep_def Let_def
    using attemptSleep_loop_never [OF z p] by (simp add: st0_def emit_def)
  show ?thesis
    using assms(1,2) unfolding sleep_def Let_def a
    by (simp add: MIN_SLEEP_TIME_def MAX_DELAY_def MAX_SLEEP_POLL_def st0_def emit_def)
qed

text \<open>
  C8. \<open>sleep\<close> with a duration of 1000 ms, when none of the 30 polls of the signal line finds
  bit 3 set: the call requests the sleep once (\<^verbatim>\<open>Serial.sleep(1000)\<close>, flush), polls 30
  times with a delay of 1 ms before each, waits the remaining 970 ms in one \<^verbatim>\<open>delay\<close> and
  returns. It makes no second request, attaches no interrupt and never reaches the sleep
  instruction; of the registers it has written only \<^verbatim>\<open>DDRD\<close>.
\<close>

theorem sleep_1000_fallback:
  assumes "\<forall>k<30. \<not> bit_is_set (pind (pind_reads st + k)) 3"
  shows "sleep io pind 1000 st
    = st\<lparr>DDRD := DDRD st AND NOT (BV 3),
         pind_reads := pind_reads st + 30,
         trace := trace st
           @ [BTConfigUartSleep UART_SLEEP_NORMAL, Serial_sleep 1000, Serial_flush]
           @ replicate 30 (Delay 1) @ [Delay 970]\<rparr>"
  using sleep_midrange [of 1000 pind st io] assms by simp

theorem sleep_1000_fallback_witness:
  "sleep atmega328p (\<lambda>k. 0) 1000 board
    = board\<lparr>DDRD := 0xF7,
         pind_reads := 30,
         trace := [BTConfigUartSleep UART_SLEEP_NORMAL, Serial_sleep 1000, Serial_flush]
           @ replicate 30 (Delay 1) @ [Delay 970]\<rparr>"
proof -
  have h: "\<forall>k<30. \<not> bit_is_set ((\<lambda>k. 0) (pind_reads board + k)) 3"
    by (simp add: bit_is_set_def)
  show ?thesis
    using sleep_1000_fallback [OF h, of atmega328p] by (simp add: board_def BV_def)
qed

text \<open>
  The calls made by lines 264 to 276, in order: the second \<^verbatim>\<open>sei\<close> is made on both
  branches; \<^verbatim>\<open>sleep_cpu\<close> comes right after the first \<^verbatim>\<open>sei\<close>, and the test of the signal
  line is between \<^verbatim>\<open>cli\<close> and that \<^verbatim>\<open>sei\<close>.
\<close>

lemma test_and_sleep_trace:
  "trace (test_and_sleep pind st)
     = trace st @ [AttachInterrupt_LOW 1, Set_sleep_mode_PWR_DOWN, Cli]
       @ (if bit_is_set (pind (pind_reads st)) 3
          then [Sleep_enable, Sleep_bod_disable, Sei, Sleep_cpu, Sleep_disable] else [])
       @ [Sei, DetachInterrupt 1]"
  by (simp add: test_and_sleep_def Let_def emit_def read_PIND_def)

text \<open>
  C6. On the board above, with the signal line asserted at the first poll, \<open>sleep\<close> reaches
  the sleep instruction. The comparator is powered before the call (\<^verbatim>\<open>ACD\<close> clear) and
  lines 180 to 184 leave it so: \<^verbatim>\<open>ac_was_set\<close> is false and \<^verbatim>\<open>ACSR\<close> is not written, while
  the converter is switched off. When the comparator is off before the call (\<^verbatim>\<open>ACD\<close> set),
  the same lines clear \<^verbatim>\<open>ACD\<close>, which powers the comparator for the time of the sleep.
  Lines 264 to 276 write neither register (lemma \<open>test_and_sleep_analog_regs\<close>).
\<close>

theorem comparator_not_disabled:
  "trace (sleep atmega328p (\<lambda>k. 8) 1000 board)
     = [BTConfigUartSleep UART_SLEEP_NORMAL, Serial_sleep 1000, Serial_flush, Delay 1,
        AttachInterrupt_LOW 1, Set_sleep_mode_PWR_DOWN, Cli,
        Sleep_enable, Sleep_bod_disable, Sei, Sleep_cpu, Sleep_disable, Sei,
        DetachInterrupt 1]
   \<and> comparator_enabled atmega328p board
   \<and> disable_peripherals atmega328p board = (True, False, board\<lparr>ADCSRA := 0x07\<rparr>)
   \<and> comparator_enabled atmega328p (board\<lparr>ADCSRA := 0x07\<rparr>)
   \<and> \<not> comparator_enabled atmega328p (board\<lparr>ACSR := 0x80\<rparr>)
   \<and> disable_peripherals atmega328p (board\<lparr>ACSR := 0x80\<rparr>)
       = (True, True, board\<lparr>ADCSRA := 0x07, ACSR := 0x00\<rparr>)
   \<and> comparator_enabled atmega328p (board\<lparr>ADCSRA := 0x07, ACSR := 0x00\<rparr>)"
proof -
  have "trace (sleep atmega328p (\<lambda>k. 8) 1000 board)
     = [BTConfigUartSleep UART_SLEEP_NORMAL, Serial_sleep 1000, Serial_flush, Delay 1,
        AttachInterrupt_LOW 1, Set_sleep_mode_PWR_DOWN, Cli,
        Sleep_enable, Sleep_bod_disable, Sei, Sleep_cpu, Sleep_disable, Sei,
        DetachInterrupt 1]"
    by (simp add: sleep_def attemptSleep_def Let_def board_def atmega328p_def emit_def
        read_PIND_def BV_def bit_is_set_def MIN_SLEEP_TIME_def MAX_DELAY_def MAX_SLEEP_POLL_def
        attemptSleep_loop.simps [of _ False] attemptSleep_loop.simps [of _ True]
        disable_peripherals_def restore_peripherals_def test_and_sleep_def)
  moreover have "comparator_enabled atmega328p board
   \<and> disable_peripherals atmega328p board = (True, False, board\<lparr>ADCSRA := 0x07\<rparr>)
   \<and> comparator_enabled atmega328p (board\<lparr>ADCSRA := 0x07\<rparr>)
   \<and> \<not> comparator_enabled atmega328p (board\<lparr>ACSR := 0x80\<rparr>)
   \<and> disable_peripherals atmega328p (board\<lparr>ACSR := 0x80\<rparr>)
       = (True, True, board\<lparr>ADCSRA := 0x07, ACSR := 0x00\<rparr>)
   \<and> comparator_enabled atmega328p (board\<lparr>ADCSRA := 0x07, ACSR := 0x00\<rparr>)"
    by code_simp
  ultimately show ?thesis by blast
qed

end
